theory Spec2Isabelle
  imports Main "HOL-Library.Sublist"
begin

section \<open>Text and the regular expressions of the migration script\<close>

text \<open>
  \<^verbatim>\<open>scripts/migrate_registry.py\<close> rewrites the text of a C source file with four calls of
  \<^verbatim>\<open>re.sub\<close>.  A Python \<^verbatim>\<open>str\<close> is a sequence of Unicode code points, so a document is a
  list of code points (natural numbers; nothing below depends on their upper bound);
  \<open>str\<close> turns a literal of the theory, whose characters are all ASCII here, into such a
  list.
\<close>

type_synonym codepoint = nat
type_synonym pystr = "codepoint list"

definition str :: "string \<Rightarrow> pystr" where
  "str cs = map of_char cs"

text \<open>
  The class \<^verbatim>\<open>\s\<close> of a \<^verbatim>\<open>str\<close> pattern is Unicode white space: the code points for which
  \<^verbatim>\<open>str.isspace\<close> holds.
\<close>

definition is_space :: "codepoint \<Rightarrow> bool" where
  "is_space c \<longleftrightarrow>
     (9 \<le> c \<and> c \<le> 13) \<or> (28 \<le> c \<and> c \<le> 32) \<or> c = 133 \<or> c = 160 \<or> c = 5760 \<or>
     (8192 \<le> c \<and> c \<le> 8202) \<or> c = 8232 \<or> c = 8233 \<or> c = 8239 \<or> c = 8287 \<or> c = 12288"

text \<open>
  The four patterns use literal characters, the greedy repetitions \<^verbatim>\<open>\s+\<close>, \<^verbatim>\<open>[^"]+\<close> and
  \<^verbatim>\<open>[^)]+\<close>, capture groups \<^verbatim>\<open>(...)\<close> and optional capture groups \<^verbatim>\<open>(...)?\<close>; no group is
  nested in another.  A pattern is a list of items, matched one after the other.
\<close>

datatype cclass = Space | Not_Char codepoint

fun in_class :: "cclass \<Rightarrow> codepoint \<Rightarrow> bool" where
  "in_class Space c = is_space c"
| "in_class (Not_Char x) c = (c \<noteq> x)"

datatype atom = Lit pystr | Plus cclass

datatype item = A atom | Grp nat "atom list" | OptGrp nat "atom list"

type_synonym pattern = "item list"
type_synonym groups = "nat \<rightharpoonup> pystr"

subsection \<open>Backtracking matcher\<close>

text \<open>
  The matcher of \<^verbatim>\<open>re\<close> searches depth first: a greedy repetition takes as many characters
  as it can and gives them back one at a time when the rest of the pattern fails, and an
  optional group is tried before it is skipped.  Each function below returns every way of
  matching, in the order in which the search tries them; the match is the first one.
  A way of matching an atom is the text left after it.  For \<^verbatim>\<open>x+\<close>, after one character of
  the class come the ways that go on with the repetition, then the way that stops there.
\<close>

fun m_plus :: "cclass \<Rightarrow> pystr \<Rightarrow> pystr list" where
  "m_plus cl [] = []"
| "m_plus cl (x # xs) = (if in_class cl x then m_plus cl xs @ [xs] else [])"

fun m_atom :: "atom \<Rightarrow> pystr \<Rightarrow> pystr list" where
  "m_atom (Lit w) s = (if prefix w s then [drop (length w) s] else [])"
| "m_atom (Plus cl) s = m_plus cl s"

fun m_atoms :: "atom list \<Rightarrow> pystr \<Rightarrow> pystr list" where
  "m_atoms [] s = [s]"
| "m_atoms (a # as) s = concat (map (m_atoms as) (m_atom a s))"

text \<open>A group records the text it matched, under its number.\<close>

definition m_group :: "nat \<Rightarrow> atom list \<Rightarrow> pystr \<times> groups \<Rightarrow> (pystr \<times> groups) list" where
  "m_group n as st =
     (case st of (s, g) \<Rightarrow>
        map (\<lambda>s'. (s', g(n \<mapsto> take (length s - length s') s))) (m_atoms as s))"

fun m_item :: "item \<Rightarrow> pystr \<times> groups \<Rightarrow> (pystr \<times> groups) list" where
  "m_item (A a) (s, g) = map (\<lambda>s'. (s', g)) (m_atom a s)"
| "m_item (Grp n as) st = m_group n as st"
| "m_item (OptGrp n as) st = m_group n as st @ [st]"

fun m_items :: "pattern \<Rightarrow> pystr \<times> groups \<Rightarrow> (pystr \<times> groups) list" where
  "m_items [] st = [st]"
| "m_items (i # is) st = concat (map (m_items is) (m_item i st))"

text \<open>
  \<^verbatim>\<open>pattern.match(s)\<close>: the match that starts at the first character of \<open>s\<close>, as the text
  left after it and the groups, or \<open>None\<close>.
\<close>

definition re_match :: "pattern \<Rightarrow> pystr \<Rightarrow> (pystr \<times> groups) option" where
  "re_match p s = (case m_items p (s, Map.empty) of [] \<Rightarrow> None | r # _ \<Rightarrow> Some r)"

text \<open>
  \<^verbatim>\<open>pattern.search(s)\<close>: the leftmost match, with the offset at which it starts.
\<close>

fun re_search :: "pattern \<Rightarrow> pystr \<Rightarrow> (nat \<times> pystr \<times> groups) option" where
  "re_search p [] = map_option (Pair 0) (re_match p [])"
| "re_search p (x # xs) =
     (case re_match p (x # xs) of
        Some r \<Rightarrow> Some (0, r)
      | None \<Rightarrow> map_option (\<lambda>(i, r). (Suc i, r)) (re_search p xs))"

subsection \<open>Substitution\<close>

text \<open>
  A replacement template is literal text and back-references \<^verbatim>\<open>\1\<close>, \<^verbatim>\<open>\2\<close>, ...; a
  reference to a group that took no part in the match expands to the empty string.
\<close>

datatype titem = TLit pystr | TRef nat

type_synonym template = "titem list"

fun expand_item :: "groups \<Rightarrow> titem \<Rightarrow> pystr" where
  "expand_item g (TLit w) = w"
| "expand_item g (TRef n) = (case g n of None \<Rightarrow> [] | Some w \<Rightarrow> w)"

definition expand :: "template \<Rightarrow> groups \<Rightarrow> pystr" where
  "expand t g = concat (map (expand_item g) t)"

text \<open>
  \<^verbatim>\<open>re.sub(pattern, repl, s)\<close> scans \<open>s\<close> from the left.  Where the pattern matches, the
  expanded template is emitted and the scan goes on after the match; elsewhere one
  character is copied.  Every pattern of the script contains a literal, so no match is
  empty; after an empty match the scan emits the template, copies one character and moves
  on.
\<close>

function re_sub :: "pattern \<Rightarrow> template \<Rightarrow> pystr \<Rightarrow> pystr" where
  "re_sub p t s =
     (case re_match p s of
        None \<Rightarrow> (case s of [] \<Rightarrow> [] | x # xs \<Rightarrow> x # re_sub p t xs)
      | Some (rest, g) \<Rightarrow>
          expand t g @
          (if length rest < length s then re_sub p t rest
           else (case s of [] \<Rightarrow> [] | x # xs \<Rightarrow> x # re_sub p t xs)))"
  by pat_completeness auto
termination
  by (relation "measure (\<lambda>(p, t, s). length s)") auto

declare re_sub.simps [simp del]

section \<open>The script\<close>

definition pattern1 :: pattern where
  \<open>pattern1 =
     [OptGrp 1 [Lit (str ''/* Load registry */''), Plus Space],
      A (Lit (str ''workflow_registry_t* registry = workflow_registry_create("'')),
      A (Plus (Not_Char (of_char CHR ''"''))),
      A (Lit (str ''");''))]\<close>

definition lock_block :: pystr where
  \<open>lock_block =
     str ''/* Use shared registry with mutex protection */\<newline>    pthread_mutex_lock(&g_api_daemon->workflow_registry_lock);\<newline>\<newline>    workflow_registry_t* registry = g_api_daemon->workflow_registry;''\<close>

definition replacement1 :: template where
  "replacement1 = [TLit lock_block]"

definition pattern2 :: pattern where
  \<open>pattern2 =
     [A (Lit (str ''if (!registry) {'')),
      Grp 1 [Plus Space],
      A (Lit (str ''http_response_set_error(resp, HTTP_STATUS_SERVER_ERROR, "Failed to create registry");'')),
      Grp 2 [Plus Space],
      A (Lit (str ''return E_SYSTEM_MEMORY;'')),
      Grp 3 [Plus Space],
      A (Lit (str ''}''))]\<close>

definition replacement2 :: template where
  \<open>replacement2 =
     [TLit (str ''if (!registry) {''), TRef 1,
      TLit (str ''pthread_mutex_unlock(&g_api_daemon->workflow_registry_lock);''), TRef 1,
      TLit (str ''http_response_set_error(resp, HTTP_STATUS_SERVER_ERROR, "Registry not initialized");''), TRef 1,
      TLit (str ''return E_INVALID_STATE;''), TRef 3,
      TLit (str ''}'')]\<close>

definition pattern3 :: pattern where
  \<open>pattern3 =
     [A (Lit (str ''int result = workflow_registry_load(registry);'')),
      Grp 1 [Plus Space],
      A (Lit (str ''if (result != ARGO_SUCCESS && result != E_SYSTEM_FILE) {'')),
      Grp 2 [Plus Space],
      A (Lit (str ''workflow_registry_destroy(registry);'')),
      Grp 3 [Plus Space],
      A (Lit (str ''http_response_set_error('')),
      A (Plus (Not_Char (of_char CHR '')''))),
      A (Lit (str '');'')),
      Grp 4 [Plus Space],
      A (Lit (str ''return result;'')),
      Grp 5 [Plus Space],
      A (Lit (str ''}'')),
      Grp 6 [Plus Space],
      OptGrp 7 [Lit (str ''/* Cleanup dead workflows after loading */'')],
      Grp 8 [Plus Space],
      OptGrp 9 [Lit (str ''workflow_registry_cleanup_dead_workflows(registry);'')]]\<close>

definition replacement3 :: template where
  "replacement3 = []"

definition pattern4 :: pattern where
  "pattern4 = [A (Lit (str ''workflow_registry_destroy(registry);''))]"

definition replacement4 :: template where
  "replacement4 = [TLit (str ''pthread_mutex_unlock(&g_api_daemon->workflow_registry_lock);'')]"

definition migrate_endpoint :: "pystr \<Rightarrow> pystr" where
  "migrate_endpoint content =
     (let content = re_sub pattern1 replacement1 content;
          content = re_sub pattern2 replacement2 content;
          content = re_sub pattern3 replacement3 content;
          content = re_sub pattern4 replacement4 content
      in content)"

section \<open>The command line\<close>

text \<open>
  The script's entry point reads \<^verbatim>\<open>sys.argv\<close>, opens the file twice (to read, then to
  write) and prints one line.  The world it acts on is the file system, the text printed
  so far and the list of the calls of \<^verbatim>\<open>open\<close>.  A file's \<open>data\<close> is its text as
  \<^verbatim>\<open>f.read()\<close> returns it.  An exception that nothing catches ends the process.
\<close>

datatype py_error = FileNotFoundError | PermissionError | IndexError

datatype open_mode = Reading | Writing

record text_file =
  data :: pystr
  readable :: bool
  writable :: bool

record world =
  files :: "pystr \<rightharpoonup> text_file"
  stdout :: pystr
  opened :: "(pystr \<times> open_mode) list"

datatype status = Exited nat | Uncaught py_error

definition print :: "pystr \<Rightarrow> world \<Rightarrow> world" where
  "print line w = w\<lparr>stdout := stdout w @ line @ [10]\<rparr>"

definition open_read :: "pystr \<Rightarrow> world \<Rightarrow> (py_error + pystr) \<times> world" where
  "open_read path w =
     (let w' = w\<lparr>opened := opened w @ [(path, Reading)]\<rparr>
      in case files w path of
           None \<Rightarrow> (Inl FileNotFoundError, w')
         | Some f \<Rightarrow> if readable f then (Inr (data f), w') else (Inl PermissionError, w'))"

definition open_write :: "pystr \<Rightarrow> pystr \<Rightarrow> world \<Rightarrow> (py_error + unit) \<times> world" where
  "open_write path new w =
     (let w' = w\<lparr>opened := opened w @ [(path, Writing)]\<rparr>
      in case files w path of
           None \<Rightarrow>
             (Inr (), w'\<lparr>files := (files w)(path \<mapsto> \<lparr>data = new, readable = True, writable = True\<rparr>)\<rparr>)
         | Some f \<Rightarrow>
             if writable f then (Inr (), w'\<lparr>files := (files w)(path \<mapsto> f\<lparr>data := new\<rparr>)\<rparr>)
             else (Inl PermissionError, w'))"

definition main :: "pystr list \<Rightarrow> world \<Rightarrow> status \<times> world" where
  "main argv w =
     (if length argv \<noteq> 2 then
        (case argv of
           [] \<Rightarrow> (Uncaught IndexError, w)
         | prog # _ \<Rightarrow> (Exited 1, print (str ''Usage: '' @ prog @ str '' <file>'') w))
      else
        (let filepath = argv ! 1 in
         case open_read filepath w of
           (Inl e, w1) \<Rightarrow> (Uncaught e, w1)
         | (Inr content, w1) \<Rightarrow>
             (let migrated = migrate_endpoint content in
              case open_write filepath migrated w1 of
                (Inl e, w2) \<Rightarrow> (Uncaught e, w2)
              | (Inr _, w2) \<Rightarrow> (Exited 0, print (str ''Migrated '' @ filepath) w2))))"

section \<open>The texts the rules are about\<close>

text \<open>A run of white space, as \<^verbatim>\<open>\s+\<close> needs it: one character or more.\<close>

definition space_run :: "pystr \<Rightarrow> bool" where
  "space_run ws \<longleftrightarrow> ws \<noteq> [] \<and> list_all is_space ws"

definition starts_in :: "cclass \<Rightarrow> pystr \<Rightarrow> bool" where
  "starts_in cl s = (case s of [] \<Rightarrow> False | x # _ \<Rightarrow> in_class cl x)"

text \<open>The document of the end-to-end example, and the expected result.\<close>

definition minimal_doc :: pystr where
  \<open>minimal_doc =
     str ''workflow_registry_t* registry = workflow_registry_create("path");\<newline>if (!registry) {\<newline>    http_response_set_error(resp, HTTP_STATUS_SERVER_ERROR, "Failed to create registry");\<newline>    return E_SYSTEM_MEMORY;\<newline>}\<newline>workflow_registry_destroy(registry);''\<close>

definition unlock_call :: pystr where
  "unlock_call = str ''pthread_mutex_unlock(&g_api_daemon->workflow_registry_lock);''"

text \<open>
  The null-check block with the white space \<open>w1\<close>, \<open>w2\<close>, \<open>w3\<close> before its two statements
  and its closing brace, and the block of Rule B with white space before its three
  statements and its closing brace.
\<close>

definition null_check_block :: "pystr \<Rightarrow> pystr \<Rightarrow> pystr \<Rightarrow> pystr" where
  \<open>null_check_block w1 w2 w3 =
     str ''if (!registry) {'' @ w1 @
     str ''http_response_set_error(resp, HTTP_STATUS_SERVER_ERROR, "Failed to create registry");'' @ w2 @
     str ''return E_SYSTEM_MEMORY;'' @ w3 @ str ''}''\<close>

definition unlock_block :: "pystr \<Rightarrow> pystr \<Rightarrow> pystr \<Rightarrow> pystr \<Rightarrow> pystr" where
  \<open>unlock_block u0 u1 u2 u3 =
     str ''if (!registry) {'' @ u0 @ unlock_call @ u1 @
     str ''http_response_set_error(resp, HTTP_STATUS_SERVER_ERROR, "Registry not initialized");'' @ u2 @
     str ''return E_INVALID_STATE;'' @ u3 @ str ''}''\<close>

definition minimal_migrated :: pystr where
  "minimal_migrated =
     lock_block @ [10] @
     unlock_block (str ''\<newline>    '') (str ''\<newline>    '') (str ''\<newline>    '') (str ''\<newline>'') @ [10] @
     unlock_call"

text \<open>The declaration of the registry variable, with the argument \<open>arg\<close> between the quotes.\<close>

definition registry_decl :: "pystr \<Rightarrow> pystr" where
  \<open>registry_decl arg =
     str ''workflow_registry_t* registry = workflow_registry_create("'' @ arg @ str ''");''\<close>

text \<open>
  The load block up to its closing brace, with its five runs of white space and the
  arguments \<open>args\<close> of the error call; then the same followed by the comment and the
  cleanup call.
\<close>

definition load_block :: "pystr \<Rightarrow> pystr \<Rightarrow> pystr \<Rightarrow> pystr \<Rightarrow> pystr \<Rightarrow> pystr \<Rightarrow> pystr" where
  \<open>load_block w1 w2 w3 args w4 w5 =
     str ''int result = workflow_registry_load(registry);'' @ w1 @
     str ''if (result != ARGO_SUCCESS && result != E_SYSTEM_FILE) {'' @ w2 @
     str ''workflow_registry_destroy(registry);'' @ w3 @
     str ''http_response_set_error('' @ args @ str '');'' @ w4 @
     str ''return result;'' @ w5 @ str ''}''\<close>

definition cleanup_comment :: pystr where
  "cleanup_comment = str ''/* Cleanup dead workflows after loading */''"

definition cleanup_call :: pystr where
  "cleanup_call = str ''workflow_registry_cleanup_dead_workflows(registry);''"

definition full_load_block ::
  "pystr \<Rightarrow> pystr \<Rightarrow> pystr \<Rightarrow> pystr \<Rightarrow> pystr \<Rightarrow> pystr \<Rightarrow> pystr \<Rightarrow> pystr \<Rightarrow> pystr" where
  "full_load_block w1 w2 w3 args w4 w5 w6 w7 =
     load_block w1 w2 w3 args w4 w5 @ w6 @ cleanup_comment @ w7 @ cleanup_call"

text \<open>A load block as it stands in a handler, used as an example.\<close>

definition load_example :: pystr where
  \<open>load_example =
     full_load_block (str ''\<newline>    '') (str ''\<newline>        '') (str ''\<newline>        '')
       (str ''resp, HTTP_STATUS_SERVER_ERROR, "Failed to load registry"'')
       (str ''\<newline>        '') (str ''\<newline>    '') (str ''\<newline>\<newline>    '') (str ''\<newline>    '')\<close>



text \<open>
  The four statements in which the patterns name the variable, written with the variable
  \<open>v\<close>: the start of the declaration, of the null check and of the load block, and the
  destroy call.
\<close>

definition decl_of :: "pystr \<Rightarrow> pystr" where
  \<open>decl_of v = str ''workflow_registry_t* '' @ v @ str '' = workflow_registry_create("''\<close>



definition destroy_call_of :: "pystr \<Rightarrow> pystr" where
  "destroy_call_of v = str ''workflow_registry_destroy('' @ v @ str '');''"

text \<open>Lines and their indentation by spaces.\<close>

fun split_lines :: "pystr \<Rightarrow> pystr list" where
  "split_lines [] = [] # []"
| "split_lines (x # xs) =
     (if x = 10 then [] # split_lines xs
      else (case split_lines xs of [] \<Rightarrow> [x] # [] | l # ls \<Rightarrow> (x # l) # ls))"

definition indentation :: "pystr \<Rightarrow> nat" where
  "indentation l = length (takeWhile (\<lambda>c. c = 32) l)"

section \<open>Properties of the matcher and of substitution\<close>

subsection \<open>Greedy repetition followed by a literal\<close>

lemma m_plus_none: "\<not> starts_in cl s \<Longrightarrow> m_plus cl s = []"
  by (cases s) (auto simp: starts_in_def)

lemma m_plus_run:
  "run \<noteq> [] \<Longrightarrow> list_all (in_class cl) run \<Longrightarrow> \<not> starts_in cl rest \<Longrightarrow>
   \<exists>others. m_plus cl (run @ rest) = rest # others \<and> list_all (starts_in cl) others"
proof (induction run)
  case Nil
  then show ?case by simp
next
  case (Cons x r)
  show ?case
  proof (cases "r = []")
    case True
    with Cons.prems show ?thesis by (simp add: m_plus_none)
  next
    case False
    with Cons obtain others where o: "m_plus cl (r @ rest) = rest # others"
      "list_all (starts_in cl) others" by auto
    from False Cons.prems have "starts_in cl (r @ rest)"
      by (cases r) (auto simp: starts_in_def)
    with o Cons.prems show ?thesis by simp
  qed
qed

lemma lit_rejects:
  "starts_in cl s \<Longrightarrow> \<not> starts_in cl w \<Longrightarrow> w \<noteq> [] \<Longrightarrow> \<not> prefix w s"
  by (cases s; cases w) (auto simp: starts_in_def)

lemma m_items_lit: "m_items (A (Lit w) # is) (w @ s, g) = m_items is (s, g)"
  by simp


lemma m_items_lit_rejects:
  "starts_in cl s \<Longrightarrow> \<not> starts_in cl w \<Longrightarrow> w \<noteq> [] \<Longrightarrow> m_items (A (Lit w) # is) (s, g) = []"
  using lit_rejects by simp

lemma concat_map_all_nil: "(\<And>x. x \<in> set xs \<Longrightarrow> f x = []) \<Longrightarrow> concat (map f xs) = []"
  by (induction xs) auto

lemma concat_m_atoms_Nil [simp]: "concat (map (m_atoms []) xs) = xs"
  by (induction xs) auto

lemma m_atoms_single [simp]: "m_atoms [a] s = m_atom a s"
  by simp

lemma m_items_grp_plus:
  assumes "run \<noteq> []" "list_all (in_class cl) run" "\<not> starts_in cl rest"
  shows "\<exists>others. list_all (starts_in cl) others \<and>
     m_items (Grp n [Plus cl] # is) (run @ rest, g) =
       m_items is (rest, g(n \<mapsto> run)) @
       concat (map (\<lambda>s'. m_items is (s', g(n \<mapsto> take (length (run @ rest) - length s') (run @ rest)))) others)"
proof -
  from m_plus_run [OF assms] obtain others where
    o: "m_plus cl (run @ rest) = rest # others" "list_all (starts_in cl) others" by blast
  then show ?thesis
    by (intro exI [of _ others]) (simp add: m_group_def comp_def del: m_atoms.simps)
qed

lemma m_items_grp_lit:
  assumes "run \<noteq> []" "list_all (in_class cl) run" "\<not> starts_in cl w" "w \<noteq> []"
  shows "m_items (Grp n [Plus cl] # A (Lit w) # is) (run @ w @ s, g) = m_items is (s, g(n \<mapsto> run))"
proof -
  from assms have r: "\<not> starts_in cl (w @ s)"
    by (cases w) (auto simp: starts_in_def)
  from m_items_grp_plus [OF assms(1,2) r, of n "A (Lit w) # is" g] obtain others where
    o: "list_all (starts_in cl) others"
    and e: "m_items (Grp n [Plus cl] # A (Lit w) # is) (run @ w @ s, g) =
       m_items (A (Lit w) # is) (w @ s, g(n \<mapsto> run)) @
       concat (map (\<lambda>s'. m_items (A (Lit w) # is) (s', g(n \<mapsto> take (length (run @ w @ s) - length s') (run @ w @ s)))) others)"
    by blast
  have "concat (map (\<lambda>s'. m_items (A (Lit w) # is) (s', g(n \<mapsto> take (length (run @ w @ s) - length s') (run @ w @ s)))) others) = []"
    using o assms(3,4) by (intro concat_map_all_nil m_items_lit_rejects [of cl]) (auto simp: list_all_iff)
  with e show ?thesis by (simp only: m_items_lit append_Nil2)
qed

lemma m_items_plus_lit:
  assumes "run \<noteq> []" "list_all (in_class cl) run" "\<not> starts_in cl w" "w \<noteq> []"
  shows "m_items (A (Plus cl) # A (Lit w) # is) (run @ w @ s, g) = m_items is (s, g)"
proof -
  from assms have r: "\<not> starts_in cl (w @ s)"
    by (cases w) (auto simp: starts_in_def)
  from m_plus_run [OF assms(1,2) r] obtain others where
    o: "m_plus cl (run @ w @ s) = (w @ s) # others" "list_all (starts_in cl) others" by blast
  have "concat (map (\<lambda>s'. m_items (A (Lit w) # is) (s', g)) others) = []"
    using o assms(3,4) by (intro concat_map_all_nil m_items_lit_rejects [of cl]) (auto simp: list_all_iff)
  then show ?thesis using o(1)
    by (simp add: comp_def del: m_items.simps(2)) (simp add: m_items.simps(2) [of "A (Plus cl)"] comp_def)
qed


subsection \<open>Substitution where nothing matches\<close>

lemma re_sub_Nil: "re_sub p t [] = (case re_match p [] of None \<Rightarrow> [] | Some (rest, g) \<Rightarrow> expand t g)"
  by (subst re_sub.simps) (simp split: option.splits)

lemma re_sub_Cons_None: "re_match p (x # xs) = None \<Longrightarrow> re_sub p t (x # xs) = x # re_sub p t xs"
  by (subst re_sub.simps) simp

lemma re_sub_Some:
  "re_match p s = Some (rest, g) \<Longrightarrow> length rest < length s \<Longrightarrow>
   re_sub p t s = expand t g @ re_sub p t rest"
  by (subst re_sub.simps) simp

lemma re_sub_no_match: "re_search p s = None \<Longrightarrow> re_sub p t s = s"
proof (induction s)
  case Nil
  then show ?case by (simp add: re_sub_Nil)
next
  case (Cons x xs)
  then show ?case by (auto simp: re_sub_Cons_None split: option.splits)
qed

lemma re_sub_before_match:
  "map_option fst (re_search p (pre @ s)) = Some (length pre) \<Longrightarrow>
   re_sub p t (pre @ s) = pre @ re_sub p t s"
proof (induction pre)
  case Nil
  then show ?case by simp
next
  case (Cons x pre)
  then show ?case
    by (auto simp: re_sub_Cons_None option.map_comp comp_def case_prod_unfold split: option.splits)
qed

lemma migrate_endpoint_no_match:
  assumes "re_search pattern1 s = None" "re_search pattern2 s = None"
    "re_search pattern3 s = None" "re_search pattern4 s = None"
  shows "migrate_endpoint s = s"
  using assms by (simp add: migrate_endpoint_def re_sub_no_match)

subsection \<open>Evaluation on concrete text\<close>

lemma prefix_Cons_if: "prefix (x # xs) (y # ys) = (if x = y then prefix xs ys else False)"
  by simp

lemma re_match_skip: "x \<noteq> c \<Longrightarrow> re_match (A (Lit (c # w)) # is) (x # xs) = None"
  by (simp add: re_match_def)

lemma re_match_skip_opt:
  "x \<noteq> c \<Longrightarrow> x \<noteq> d \<Longrightarrow>
   re_match (OptGrp n (Lit (c # w) # as) # A (Lit (d # v)) # is) (x # xs) = None"
  by (simp add: re_match_def m_group_def)

lemma re_sub_skip:
  "x \<noteq> c \<Longrightarrow>
   re_sub (A (Lit (c # w)) # is) t (x # xs) = x # re_sub (A (Lit (c # w)) # is) t xs"
  by (simp add: re_sub_Cons_None re_match_skip)

lemma re_sub_skip_opt:
  "x \<noteq> c \<Longrightarrow> x \<noteq> d \<Longrightarrow>
   re_sub (OptGrp n (Lit (c # w) # as) # A (Lit (d # v)) # is) t (x # xs) =
     x # re_sub (OptGrp n (Lit (c # w) # as) # A (Lit (d # v)) # is) t xs"
  by (simp add: re_sub_Cons_None re_match_skip_opt)

lemma re_sub_try:
  "re_sub (A (Lit (c # w)) # is) t (c # xs) =
     (case re_match (A (Lit (c # w)) # is) (c # xs) of
        None \<Rightarrow> c # re_sub (A (Lit (c # w)) # is) t xs
      | Some (rest, g) \<Rightarrow> expand t g @
          (if length rest < Suc (length xs) then re_sub (A (Lit (c # w)) # is) t rest
           else c # re_sub (A (Lit (c # w)) # is) t xs))"
  by (subst re_sub.simps) (simp split: option.splits)

lemma re_sub_try_opt1:
  "re_sub (OptGrp n (Lit (c # w) # as) # is) t (c # xs) =
     (case re_match (OptGrp n (Lit (c # w) # as) # is) (c # xs) of
        None \<Rightarrow> c # re_sub (OptGrp n (Lit (c # w) # as) # is) t xs
      | Some (rest, g) \<Rightarrow> expand t g @
          (if length rest < Suc (length xs) then re_sub (OptGrp n (Lit (c # w) # as) # is) t rest
           else c # re_sub (OptGrp n (Lit (c # w) # as) # is) t xs))"
  by (subst re_sub.simps) (simp split: option.splits)

lemma re_sub_try_opt2:
  "re_sub (OptGrp n as # A (Lit (d # v)) # is) t (d # xs) =
     (case re_match (OptGrp n as # A (Lit (d # v)) # is) (d # xs) of
        None \<Rightarrow> d # re_sub (OptGrp n as # A (Lit (d # v)) # is) t xs
      | Some (rest, g) \<Rightarrow> expand t g @
          (if length rest < Suc (length xs) then re_sub (OptGrp n as # A (Lit (d # v)) # is) t rest
           else d # re_sub (OptGrp n as # A (Lit (d # v)) # is) t xs))"
  by (subst re_sub.simps) (simp split: option.splits)

lemma re_sub_end: "re_sub (A (Lit (c # w)) # is) t [] = []"
  by (simp add: re_sub_Nil re_match_def)

lemma re_sub_end_opt: "re_sub (OptGrp n (Lit (c # w) # as) # A (Lit (d # v)) # is) t [] = []"
  by (simp add: re_sub_Nil re_match_def m_group_def)

lemmas sub_eval = re_sub_skip re_sub_skip_opt re_sub_try re_sub_try_opt1 re_sub_try_opt2
  re_sub_end re_sub_end_opt re_match_def m_group_def expand_def is_space_def prefix_Cons_if

lemmas text_defs = str_def minimal_doc_def minimal_migrated_def lock_block_def unlock_call_def
  null_check_block_def unlock_block_def registry_decl_def load_block_def cleanup_comment_def
  cleanup_call_def full_load_block_def

lemma re_search_skip:
  "x \<noteq> c \<Longrightarrow>
   re_search (A (Lit (c # w)) # is) (x # xs) =
     map_option (\<lambda>(i, r). (Suc i, r)) (re_search (A (Lit (c # w)) # is) xs)"
  by (simp add: re_match_skip)

lemma re_search_skip_opt:
  "x \<noteq> c \<Longrightarrow> x \<noteq> d \<Longrightarrow>
   re_search (OptGrp n (Lit (c # w) # as) # A (Lit (d # v)) # is) (x # xs) =
     map_option (\<lambda>(i, r). (Suc i, r))
       (re_search (OptGrp n (Lit (c # w) # as) # A (Lit (d # v)) # is) xs)"
  by (simp add: re_match_skip_opt)

lemma re_search_try:
  "re_search (A (Lit (c # w)) # is) (c # xs) =
     (case re_match (A (Lit (c # w)) # is) (c # xs) of
        Some r \<Rightarrow> Some (0, r)
      | None \<Rightarrow> map_option (\<lambda>(i, r). (Suc i, r)) (re_search (A (Lit (c # w)) # is) xs))"
  by simp

lemma re_search_try_opt1:
  "re_search (OptGrp n (Lit (c # w) # as) # is) (c # xs) =
     (case re_match (OptGrp n (Lit (c # w) # as) # is) (c # xs) of
        Some r \<Rightarrow> Some (0, r)
      | None \<Rightarrow> map_option (\<lambda>(i, r). (Suc i, r)) (re_search (OptGrp n (Lit (c # w) # as) # is) xs))"
  by simp

lemma re_search_try_opt2:
  "re_search (OptGrp n as # A (Lit (d # v)) # is) (d # xs) =
     (case re_match (OptGrp n as # A (Lit (d # v)) # is) (d # xs) of
        Some r \<Rightarrow> Some (0, r)
      | None \<Rightarrow> map_option (\<lambda>(i, r). (Suc i, r)) (re_search (OptGrp n as # A (Lit (d # v)) # is) xs))"
  by simp

lemmas search_eval = re_search_skip re_search_skip_opt re_search_try re_search_try_opt1
  re_search_try_opt2 re_search.simps(1) re_match_def m_group_def is_space_def prefix_Cons_if

section \<open>The end-to-end example\<close>






section \<open>Documents without any of the patterns\<close>

text \<open>
  C2. A document in which none of the four patterns has a match (\<^verbatim>\<open>re.search\<close> finds
  nothing for the patterns of Rules A, B, C and D) is returned unchanged.
\<close>

theorem no_pattern_identity:
  "re_search pattern1 s = None \<Longrightarrow> re_search pattern2 s = None \<Longrightarrow>
   re_search pattern3 s = None \<Longrightarrow> re_search pattern4 s = None \<Longrightarrow>
   migrate_endpoint s = s"
  by (rule migrate_endpoint_no_match)

theorem no_pattern_identity_witness:
  "re_search pattern1 (str ''int main(void) { return 0; }'') = None \<and>
   re_search pattern2 (str ''int main(void) { return 0; }'') = None \<and>
   re_search pattern3 (str ''int main(void) { return 0; }'') = None \<and>
   re_search pattern4 (str ''int main(void) { return 0; }'') = None \<and>
   migrate_endpoint (str ''int main(void) { return 0; }'') = str ''int main(void) { return 0; }''"
proof -
  have h1: "re_search pattern1 (str ''int main(void) { return 0; }'') = None"
    unfolding pattern1_def str_def by (simp add: search_eval del: Cons_prefix_Cons re_search.simps(2))
  have h2: "re_search pattern2 (str ''int main(void) { return 0; }'') = None"
    unfolding pattern2_def str_def by (simp add: search_eval del: Cons_prefix_Cons re_search.simps(2))
  have h3: "re_search pattern3 (str ''int main(void) { return 0; }'') = None"
    unfolding pattern3_def str_def by (simp add: search_eval del: Cons_prefix_Cons re_search.simps(2))
  have h4: "re_search pattern4 (str ''int main(void) { return 0; }'') = None"
    unfolding pattern4_def str_def by (simp add: search_eval del: Cons_prefix_Cons re_search.simps(2))
  from no_pattern_identity [OF h1 h2 h3 h4] h1 h2 h3 h4 show ?thesis by simp
qed

text \<open>
  C3. On such a document, which may contain the unlock call that Rule D writes, a second
  run of the script changes nothing more: running it twice gives what running it once gives.
  The migrated document of the end-to-end example is one.
\<close>

theorem migrated_idempotent:
  "re_search pattern1 s = None \<Longrightarrow> re_search pattern2 s = None \<Longrightarrow>
   re_search pattern3 s = None \<Longrightarrow> re_search pattern4 s = None \<Longrightarrow>
   migrate_endpoint (migrate_endpoint s) = migrate_endpoint s"
  by (simp add: migrate_endpoint_no_match)

theorem migrated_idempotent_witness:
  "re_search pattern1 minimal_migrated = None \<and> re_search pattern2 minimal_migrated = None \<and>
   re_search pattern3 minimal_migrated = None \<and> re_search pattern4 minimal_migrated = None \<and>
   migrate_endpoint (migrate_endpoint minimal_migrated) = migrate_endpoint minimal_migrated"
proof -
  have h1: "re_search pattern1 minimal_migrated = None"
    unfolding pattern1_def text_defs by (simp add: search_eval del: Cons_prefix_Cons re_search.simps(2))
  have h2: "re_search pattern2 minimal_migrated = None"
    unfolding pattern2_def text_defs by (simp add: search_eval del: Cons_prefix_Cons re_search.simps(2))
  have h3: "re_search pattern3 minimal_migrated = None"
    unfolding pattern3_def text_defs by (simp add: search_eval del: Cons_prefix_Cons re_search.simps(2))
  have h4: "re_search pattern4 minimal_migrated = None"
    unfolding pattern4_def text_defs by (simp add: search_eval del: Cons_prefix_Cons re_search.simps(2))
  from migrated_idempotent [OF h1 h2 h3 h4] h1 h2 h3 h4 show ?thesis by simp
qed

section \<open>The rules on the texts they are written for\<close>

subsection \<open>Literals\<close>

lemma str_Cons: "str (c # cs) = of_char c # str cs"
  by (simp add: str_def)

lemma str_not_Nil [simp]: "str (c # cs) \<noteq> []"
  by (simp add: str_def)

lemma starts_in_str [simp]: "starts_in cl (str (c # cs)) = in_class cl (of_char c)"
  by (simp add: starts_in_def str_def)

lemma in_class_Space: "in_class Space = is_space"
  by (rule ext) simp

lemma space_runD: "space_run ws \<Longrightarrow> ws \<noteq> [] \<and> list_all (in_class Space) ws"
  by (simp add: space_run_def in_class_Space)

lemma m_items_opt_skip:
  "\<not> prefix c s \<Longrightarrow> m_items (OptGrp n (Lit c # as) # is) (s, g) = m_items is (s, g)"
  by (simp add: m_group_def)

subsection \<open>Rule A on a declaration\<close>

lemma re_match_registry_decl:
  assumes "arg \<noteq> []" "of_char CHR 0x22 \<notin> set arg"
  shows "re_match pattern1 (registry_decl arg @ rest) = Some (rest, Map.empty)"
proof -
  have cls: "list_all (in_class (Not_Char (of_char CHR 0x22))) arg"
    using assms(2) by (auto simp: list_all_iff)
  have skip: "\<not> prefix (str ''/* Load registry */'') (str (CHR ''w'' # cs) @ s)" for cs s
    by (simp add: str_def)
  show ?thesis
    unfolding re_match_def pattern1_def registry_decl_def
    by (simp only: append_assoc m_items_opt_skip [OF skip] m_items_lit
        m_items_plus_lit [OF assms(1) cls] starts_in_str in_class.simps str_not_Nil
        not_False_eq_True simp_thms m_items.simps(1) list.case)
qed

lemma rule_a_registry_decl:
  assumes "arg \<noteq> []" "of_char CHR 0x22 \<notin> set arg"
  shows "re_sub pattern1 replacement1 (registry_decl arg @ rest) =
         lock_block @ re_sub pattern1 replacement1 rest"
proof -
  have "length rest < length (registry_decl arg @ rest)"
    by (simp add: registry_decl_def str_def)
  from re_sub_Some [OF re_match_registry_decl [OF assms] this]
  show ?thesis by (simp add: replacement1_def expand_def)
qed


text \<open>
  C5, as the code has it. The pattern asks for one character or more between the quotes
  (\<^verbatim>\<open>[^"]+\<close>). For every argument that is not empty and holds no double quote, Rule A
  matches the declaration, whatever follows it, and puts the lock-and-reassign block in its
  place.
\<close>

theorem rule_a_nonempty_argument:
  \<open>arg \<noteq> [] \<Longrightarrow> of_char CHR ''"'' \<notin> set arg \<Longrightarrow>
   re_match pattern1 (registry_decl arg @ rest) = Some (rest, Map.empty) \<and>
   re_sub pattern1 replacement1 (registry_decl arg @ rest) =
     lock_block @ re_sub pattern1 replacement1 rest\<close>
  by (simp add: re_match_registry_decl rule_a_registry_decl)

theorem rule_a_nonempty_argument_witness:
  \<open>str ''path'' \<noteq> [] \<and> of_char CHR ''"'' \<notin> set (str ''path'') \<and>
   re_match pattern1 (registry_decl (str ''path'') @ []) = Some ([], Map.empty) \<and>
   re_sub pattern1 replacement1 (registry_decl (str ''path'') @ []) = lock_block\<close>
proof -
  have h1: "str ''path'' \<noteq> []" by simp
  have h2: "of_char CHR 0x22 \<notin> set (str ''path'')" by (simp add: str_def)
  have e: "re_sub pattern1 replacement1 [] = []"
    by (simp add: pattern1_def str_def re_sub_end_opt)
  from rule_a_nonempty_argument [OF h1 h2, of "[]"] h1 h2 e show ?thesis by simp
qed

text \<open>
  With the empty argument \<^verbatim>\<open>""\<close> the pattern does not match and Rule A leaves the
  declaration as it is.
\<close>

theorem rule_a_empty_argument_counterexample:
  "re_match pattern1 (registry_decl []) = None \<and>
   re_sub pattern1 replacement1 (registry_decl []) = registry_decl [] \<and>
   registry_decl [] \<noteq> lock_block"
proof -
  have "re_match pattern1 (registry_decl []) = None"
    unfolding pattern1_def text_defs by (simp add: search_eval del: Cons_prefix_Cons)
  moreover have "re_sub pattern1 replacement1 (registry_decl []) = registry_decl []"
    unfolding pattern1_def replacement1_def text_defs by (simp add: sub_eval del: Cons_prefix_Cons)
  moreover have "registry_decl [] \<noteq> lock_block"
    by (simp add: text_defs)
  ultimately show ?thesis by simp
qed

subsection \<open>Rule B on the null-check block\<close>

lemma re_match_null_check_block:
  assumes "space_run w1" "space_run w2" "space_run w3"
  shows "re_match pattern2 (null_check_block w1 w2 w3 @ rest) =
         Some (rest, [1 \<mapsto> w1, 2 \<mapsto> w2, 3 \<mapsto> w3])"
proof -
  note w = space_runD [OF assms(1)] space_runD [OF assms(2)] space_runD [OF assms(3)]
  have ns: "\<not> starts_in Space (str ''http_response_set_error(resp, HTTP_STATUS_SERVER_ERROR, \"Failed to create registry\");'')"
    "\<not> starts_in Space (str ''return E_SYSTEM_MEMORY;'')" "\<not> starts_in Space (str ''}'')"
    by (simp_all add: is_space_def)
  show ?thesis
    unfolding re_match_def pattern2_def null_check_block_def
    by (simp only: append_assoc m_items_lit m_items.simps(1) list.case
        m_items_grp_lit [OF conjunct1 [OF w(1)] conjunct2 [OF w(1)] ns(1) str_not_Nil]
        m_items_grp_lit [OF conjunct1 [OF w(2)] conjunct2 [OF w(2)] ns(2) str_not_Nil]
        m_items_grp_lit [OF conjunct1 [OF w(3)] conjunct2 [OF w(3)] ns(3) str_not_Nil])
qed

lemma rule_b_null_check_block:
  assumes "space_run w1" "space_run w2" "space_run w3"
  shows "re_sub pattern2 replacement2 (null_check_block w1 w2 w3 @ rest) =
         unlock_block w1 w1 w1 w3 @ re_sub pattern2 replacement2 rest"
proof -
  have "length rest < length (null_check_block w1 w2 w3 @ rest)"
    by (simp add: null_check_block_def str_def)
  from re_sub_Some [OF re_match_null_check_block [OF assms] this]
  show ?thesis by (simp add: replacement2_def expand_def unlock_block_def unlock_call_def)
qed

lemma space_run_str [simp]: "space_run (str cs) = (cs \<noteq> [] \<and> list_all (\<lambda>c. is_space (of_char c)) cs)"
  by (simp add: space_run_def str_def list_all_iff)

text \<open>
  C4, as the code has it. The template of Rule B refers to group 1 three times and to
  group 3 once: the first span of white space stands before each of the three statements of
  the new block, the third before the closing brace, and the second span is not used.
\<close>

theorem rule_b_reuses_first_and_third_span:
  "space_run w1 \<Longrightarrow> space_run w2 \<Longrightarrow> space_run w3 \<Longrightarrow>
   re_match pattern2 (null_check_block w1 w2 w3 @ rest) =
     Some (rest, [1 \<mapsto> w1, 2 \<mapsto> w2, 3 \<mapsto> w3]) \<and>
   re_sub pattern2 replacement2 (null_check_block w1 w2 w3 @ rest) =
     unlock_block w1 w1 w1 w3 @ re_sub pattern2 replacement2 rest"
  by (simp add: re_match_null_check_block rule_b_null_check_block)

theorem rule_b_reuses_first_and_third_span_witness:
  "space_run (str ''\<newline>    '') \<and> space_run (str ''\<newline>        '') \<and> space_run (str ''\<newline>'') \<and>
   re_match pattern2
     (null_check_block (str ''\<newline>    '') (str ''\<newline>        '') (str ''\<newline>'') @ []) =
     Some ([], [1 \<mapsto> str ''\<newline>    '', 2 \<mapsto> str ''\<newline>        '', 3 \<mapsto> str ''\<newline>'']) \<and>
   re_sub pattern2 replacement2
     (null_check_block (str ''\<newline>    '') (str ''\<newline>        '') (str ''\<newline>'') @ []) =
     unlock_block (str ''\<newline>    '') (str ''\<newline>    '') (str ''\<newline>    '') (str ''\<newline>'')"
proof -
  have h1: "space_run (str ''\<newline>    '')" by (simp add: is_space_def)
  have h2: "space_run (str ''\<newline>        '')" by (simp add: is_space_def)
  have h3: "space_run (str ''\<newline>'')" by (simp add: is_space_def)
  have e: "re_sub pattern2 replacement2 [] = []"
    by (simp add: pattern2_def str_def re_sub_end)
  from rule_b_reuses_first_and_third_span [OF h1 h2 h3, of "[]"] h1 h2 h3 e
  show ?thesis by simp
qed

text \<open>
  Where the second span differs from the first (here eight spaces of indentation against
  four), the new block has the first span before \<^verbatim>\<open>return E_INVALID_STATE;\<close> and so differs from
  the block that keeps the second span in its place.
\<close>

theorem rule_b_second_span_counterexample:
  "re_sub pattern2 replacement2
     (null_check_block (str ''\<newline>    '') (str ''\<newline>        '') (str ''\<newline>'')) =
     unlock_block (str ''\<newline>    '') (str ''\<newline>    '') (str ''\<newline>    '') (str ''\<newline>'') \<and>
   unlock_block (str ''\<newline>    '') (str ''\<newline>    '') (str ''\<newline>    '') (str ''\<newline>'') \<noteq>
   unlock_block (str ''\<newline>    '') (str ''\<newline>    '') (str ''\<newline>        '') (str ''\<newline>'')"
proof -
  have h1: "space_run (str ''\<newline>    '')" by (simp add: is_space_def)
  have h2: "space_run (str ''\<newline>        '')" by (simp add: is_space_def)
  have h3: "space_run (str ''\<newline>'')" by (simp add: is_space_def)
  have e: "re_sub pattern2 replacement2 [] = []"
    by (simp add: pattern2_def str_def re_sub_end)
  have "unlock_block (str ''\<newline>    '') (str ''\<newline>    '') (str ''\<newline>    '') (str ''\<newline>'') \<noteq>
    unlock_block (str ''\<newline>    '') (str ''\<newline>    '') (str ''\<newline>        '') (str ''\<newline>'')"
    by (simp add: unlock_block_def str_def)
  with rule_b_null_check_block [OF h1 h2 h3, of "[]"] e show ?thesis by simp
qed

subsection \<open>Rule A and indentation\<close>

lemma re_match_pattern1_space: "re_match pattern1 (32 # xs) = None"
  unfolding pattern1_def str_def by (simp add: re_match_skip_opt)

lemma rule_a_skips_spaces:
  "re_sub pattern1 replacement1 (replicate n 32 @ s) =
   replicate n 32 @ re_sub pattern1 replacement1 s"
  by (induction n) (simp_all add: re_sub_Cons_None re_match_pattern1_space)

lemma rule_a_end: "re_sub pattern1 replacement1 [] = []"
  by (simp add: pattern1_def str_def re_sub_end_opt)

lemma split_lines_not_Nil: "split_lines s \<noteq> []"
  by (induction s) (auto split: list.splits)

lemma split_lines_spaces:
  "split_lines (replicate n 32 @ s) = (replicate n 32 @ hd (split_lines s)) # tl (split_lines s)"
  using split_lines_not_Nil [of s]
  by (induction n) (auto split: list.splits)

lemma indentation_spaces: "indentation (replicate n 32 @ l) = n + indentation l"
  by (induction n) (simp_all add: indentation_def)

lemma lock_block_lines: "split_lines lock_block =
  [str ''/* Use shared registry with mutex protection */'',
   str ''    pthread_mutex_lock(&g_api_daemon->workflow_registry_lock);'',
   [],
   str ''    workflow_registry_t* registry = g_api_daemon->workflow_registry;'']"
  by (simp add: lock_block_def str_def)

lemma indented_lock_block_lines:
  "map indentation (split_lines (replicate n 32 @ lock_block)) = [n, 4, 0, 4]"
  by (simp add: split_lines_spaces indentation_spaces lock_block_lines)
    (simp add: indentation_def str_def)

text \<open>
  C8. For a declaration indented by \<open>n\<close> spaces the result of Rule A is the \<open>n\<close> spaces followed
  by the lock block: the comment line keeps the indentation \<open>n\<close>, the lock line and the
  reassignment line are indented by four spaces whatever \<open>n\<close> is, and when \<open>n\<close> is not four
  neither of the two has the indentation of the declaration.
\<close>

theorem rule_a_fixed_indentation:
  \<open>arg \<noteq> [] \<Longrightarrow> of_char CHR ''"'' \<notin> set arg \<Longrightarrow>
   re_sub pattern1 replacement1 (replicate n 32 @ registry_decl arg) =
     replicate n 32 @ lock_block \<and>
   map indentation
     (split_lines (re_sub pattern1 replacement1 (replicate n 32 @ registry_decl arg))) =
     [n, 4, 0, 4] \<and>
   (n \<noteq> 4 \<longrightarrow>
     indentation
       (split_lines (re_sub pattern1 replacement1 (replicate n 32 @ registry_decl arg)) ! 1) \<noteq> n \<and>
     indentation
       (split_lines (re_sub pattern1 replacement1 (replicate n 32 @ registry_decl arg)) ! 3) \<noteq> n)\<close>
proof -
  assume a: "arg \<noteq> []" "of_char CHR 0x22 \<notin> set arg"
  have out: "re_sub pattern1 replacement1 (replicate n 32 @ registry_decl arg) =
      replicate n 32 @ lock_block"
    using rule_a_registry_decl [OF a, of "[]"] by (simp add: rule_a_skips_spaces rule_a_end)
  have ind: "map indentation (split_lines (replicate n 32 @ lock_block)) = [n, 4, 0, 4]"
    by (rule indented_lock_block_lines)
  then have "indentation (split_lines (replicate n 32 @ lock_block) ! 1) = 4"
    "indentation (split_lines (replicate n 32 @ lock_block) ! 3) = 4"
    by (simp_all add: split_lines_spaces lock_block_lines nth_Cons' numeral_3_eq_3)
  with out ind show ?thesis by simp
qed

theorem rule_a_fixed_indentation_witness:
  \<open>str ''path'' \<noteq> [] \<and> of_char CHR ''"'' \<notin> set (str ''path'') \<and>
   re_sub pattern1 replacement1 (replicate 2 32 @ registry_decl (str ''path'')) =
     replicate 2 32 @ lock_block \<and>
   map indentation
     (split_lines (re_sub pattern1 replacement1 (replicate 2 32 @ registry_decl (str ''path'')))) =
     [2, 4, 0, 4] \<and>
   (2::nat) \<noteq> 4 \<and>
   indentation
     (split_lines (re_sub pattern1 replacement1 (replicate 2 32 @ registry_decl (str ''path''))) ! 1) \<noteq> 2 \<and>
   indentation
     (split_lines (re_sub pattern1 replacement1 (replicate 2 32 @ registry_decl (str ''path''))) ! 3) \<noteq> 2\<close>
proof -
  have h1: "str ''path'' \<noteq> []" by simp
  have h2: "of_char CHR 0x22 \<notin> set (str ''path'')" by (simp add: str_def)
  have h3: "(2::nat) \<noteq> 4" by simp
  from rule_a_fixed_indentation [OF h1 h2, of 2] h1 h2 h3 show ?thesis by blast
qed

subsection \<open>Rule C on the load block\<close>

lemma m_items_load_block:
  assumes "space_run w1" "space_run w2" "space_run w3" "space_run w4" "space_run w5"
    and "args \<noteq> []" "of_char CHR '')'' \<notin> set args"
  shows "m_items pattern3 (load_block w1 w2 w3 args w4 w5 @ s, Map.empty) =
         m_items [Grp 6 [Plus Space], OptGrp 7 [Lit cleanup_comment], Grp 8 [Plus Space],
                  OptGrp 9 [Lit cleanup_call]]
           (s, [1 \<mapsto> w1, 2 \<mapsto> w2, 3 \<mapsto> w3, 4 \<mapsto> w4, 5 \<mapsto> w5])"
proof -
  note w = space_runD [OF assms(1)] space_runD [OF assms(2)] space_runD [OF assms(3)]
    space_runD [OF assms(4)] space_runD [OF assms(5)]
  have cls: "list_all (in_class (Not_Char (of_char CHR '')''))) args"
    using assms(7) by (auto simp: list_all_iff)
  have ns: "\<not> starts_in Space (str ''if (result != ARGO_SUCCESS && result != E_SYSTEM_FILE) {'')"
    "\<not> starts_in Space (str ''workflow_registry_destroy(registry);'')"
    "\<not> starts_in Space (str ''http_response_set_error('')"
    "\<not> starts_in Space (str ''return result;'')"
    "\<not> starts_in Space (str ''}'')"
    by (simp_all add: is_space_def)
  have np: "\<not> starts_in (Not_Char (of_char CHR '')'')) (str '');'')"
    by simp
  show ?thesis
    unfolding pattern3_def load_block_def cleanup_comment_def cleanup_call_def
    by (simp only: append_assoc m_items_lit
        m_items_grp_lit [OF conjunct1 [OF w(1)] conjunct2 [OF w(1)] ns(1) str_not_Nil]
        m_items_grp_lit [OF conjunct1 [OF w(2)] conjunct2 [OF w(2)] ns(2) str_not_Nil]
        m_items_grp_lit [OF conjunct1 [OF w(3)] conjunct2 [OF w(3)] ns(3) str_not_Nil]
        m_items_plus_lit [OF assms(6) cls np str_not_Nil]
        m_items_grp_lit [OF conjunct1 [OF w(4)] conjunct2 [OF w(4)] ns(4) str_not_Nil]
        m_items_grp_lit [OF conjunct1 [OF w(5)] conjunct2 [OF w(5)] ns(5) str_not_Nil])
qed

lemma m_items_opt_take:
  "m_items (OptGrp n [Lit c] # is) (c @ s, g) =
   m_items is (s, g(n \<mapsto> c)) @ m_items is (c @ s, g)"
  by (simp add: m_group_def)

lemma cleanup_not_space:
  "\<not> starts_in Space (cleanup_comment @ s)" "\<not> starts_in Space (cleanup_call @ s)"
  by (simp_all add: cleanup_comment_def cleanup_call_def str_def starts_in_def is_space_def)

lemma m_items_tail_full:
  assumes "space_run w6" "space_run w7"
  shows "\<exists>more. m_items [Grp 6 [Plus Space], OptGrp 7 [Lit cleanup_comment], Grp 8 [Plus Space],
                  OptGrp 9 [Lit cleanup_call]]
           (w6 @ cleanup_comment @ w7 @ cleanup_call @ post, g) =
         (post, g(6 \<mapsto> w6, 7 \<mapsto> cleanup_comment, 8 \<mapsto> w7, 9 \<mapsto> cleanup_call)) # more"
proof -
  note w = space_runD [OF assms(1)] space_runD [OF assms(2)]
  from m_items_grp_plus [OF conjunct1 [OF w(1)] conjunct2 [OF w(1)] cleanup_not_space(1),
      of 6 "[OptGrp 7 [Lit cleanup_comment], Grp 8 [Plus Space], OptGrp 9 [Lit cleanup_call]]"
         "w7 @ cleanup_call @ post" g]
  obtain m1 where e1: "m_items [Grp 6 [Plus Space], OptGrp 7 [Lit cleanup_comment],
        Grp 8 [Plus Space], OptGrp 9 [Lit cleanup_call]]
        (w6 @ cleanup_comment @ w7 @ cleanup_call @ post, g) =
      m_items [OptGrp 7 [Lit cleanup_comment], Grp 8 [Plus Space], OptGrp 9 [Lit cleanup_call]]
        (cleanup_comment @ w7 @ cleanup_call @ post, g(6 \<mapsto> w6)) @ m1"
    by auto
  from m_items_grp_plus [OF conjunct1 [OF w(2)] conjunct2 [OF w(2)] cleanup_not_space(2),
      of 8 "[OptGrp 9 [Lit cleanup_call]]" post "g(6 \<mapsto> w6, 7 \<mapsto> cleanup_comment)"]
  obtain m2 where e2: "m_items [Grp 8 [Plus Space], OptGrp 9 [Lit cleanup_call]]
        (w7 @ cleanup_call @ post, g(6 \<mapsto> w6, 7 \<mapsto> cleanup_comment)) =
      m_items [OptGrp 9 [Lit cleanup_call]]
        (cleanup_call @ post, g(6 \<mapsto> w6, 7 \<mapsto> cleanup_comment, 8 \<mapsto> w7)) @ m2"
    by auto
  show ?thesis
    by (simp add: e1 e2 m_items_opt_take del: m_items.simps(2))
qed

lemma re_match_full_load_block:
  assumes "space_run w1" "space_run w2" "space_run w3" "space_run w4" "space_run w5"
    and "space_run w6" "space_run w7"
    and "args \<noteq> []" "of_char CHR '')'' \<notin> set args"
  shows "re_match pattern3 (full_load_block w1 w2 w3 args w4 w5 w6 w7 @ post) =
         Some (post, [1 \<mapsto> w1, 2 \<mapsto> w2, 3 \<mapsto> w3, 4 \<mapsto> w4, 5 \<mapsto> w5, 6 \<mapsto> w6,
                      7 \<mapsto> cleanup_comment, 8 \<mapsto> w7, 9 \<mapsto> cleanup_call])"
proof -
  from m_items_tail_full [OF assms(6,7)] obtain more where
    "m_items [Grp 6 [Plus Space], OptGrp 7 [Lit cleanup_comment], Grp 8 [Plus Space],
              OptGrp 9 [Lit cleanup_call]]
       (w6 @ cleanup_comment @ w7 @ cleanup_call @ post,
        [1 \<mapsto> w1, 2 \<mapsto> w2, 3 \<mapsto> w3, 4 \<mapsto> w4, 5 \<mapsto> w5]) =
     (post, [1 \<mapsto> w1, 2 \<mapsto> w2, 3 \<mapsto> w3, 4 \<mapsto> w4, 5 \<mapsto> w5, 6 \<mapsto> w6,
             7 \<mapsto> cleanup_comment, 8 \<mapsto> w7, 9 \<mapsto> cleanup_call]) # more"
    by blast
  then show ?thesis
    unfolding re_match_def full_load_block_def
    by (simp only: append_assoc m_items_load_block [OF assms(1-5,8,9)] list.case)
qed

lemma expand_replacement3: "expand replacement3 g = []"
  by (simp add: replacement3_def expand_def)

lemma rule_c_full_load_block:
  assumes "space_run w1" "space_run w2" "space_run w3" "space_run w4" "space_run w5"
    and "space_run w6" "space_run w7"
    and "args \<noteq> []" "of_char CHR '')'' \<notin> set args"
  shows "re_sub pattern3 replacement3 (full_load_block w1 w2 w3 args w4 w5 w6 w7 @ post) =
         re_sub pattern3 replacement3 post"
proof -
  have "length post < length (full_load_block w1 w2 w3 args w4 w5 w6 w7 @ post)"
    by (simp add: full_load_block_def cleanup_call_def str_def)
  from re_sub_Some [OF re_match_full_load_block [OF assms] this]
  show ?thesis by (simp add: expand_replacement3)
qed

text \<open>
  C6. A document \<open>pre @ block @ post\<close> where the block is the load block with the comment and
  the cleanup call. The block is the one occurrence of the pattern of Rule C: the leftmost
  match starts at the block and there is none in \<open>post\<close>. No other rule applies: the
  patterns of Rules A and B, which run first, have no match in the document, and the pattern
  of Rule D, which runs last, has none in the text \<open>pre @ post\<close> around the block. Then the
  script returns \<open>pre @ post\<close>: the block is gone and every other character is as it was.
\<close>

theorem rule_c_removes_full_block:
  assumes "space_run w1" "space_run w2" "space_run w3" "space_run w4" "space_run w5"
    and "space_run w6" "space_run w7"
    and "args \<noteq> []" "of_char CHR '')'' \<notin> set args"
    and "re_search pattern1 (pre @ full_load_block w1 w2 w3 args w4 w5 w6 w7 @ post) = None"
    and "re_search pattern2 (pre @ full_load_block w1 w2 w3 args w4 w5 w6 w7 @ post) = None"
    and "map_option fst
           (re_search pattern3 (pre @ full_load_block w1 w2 w3 args w4 w5 w6 w7 @ post)) =
         Some (length pre)"
    and "re_search pattern3 post = None"
    and "re_search pattern4 (pre @ post) = None"
  shows "migrate_endpoint (pre @ full_load_block w1 w2 w3 args w4 w5 w6 w7 @ post) = pre @ post"
proof -
  let ?doc = "pre @ full_load_block w1 w2 w3 args w4 w5 w6 w7 @ post"
  have a: "re_sub pattern1 replacement1 ?doc = ?doc"
    by (rule re_sub_no_match) (rule assms(10))
  have b: "re_sub pattern2 replacement2 ?doc = ?doc"
    by (rule re_sub_no_match) (rule assms(11))
  have "re_sub pattern3 replacement3 ?doc =
      pre @ re_sub pattern3 replacement3 (full_load_block w1 w2 w3 args w4 w5 w6 w7 @ post)"
    by (rule re_sub_before_match) (rule assms(12))
  also have "\<dots> = pre @ re_sub pattern3 replacement3 post"
    by (simp only: rule_c_full_load_block [OF assms(1-9)])
  also have "\<dots> = pre @ post"
    by (simp only: re_sub_no_match [OF assms(13)])
  finally have c: "re_sub pattern3 replacement3 ?doc = pre @ post" .
  have d: "re_sub pattern4 replacement4 (pre @ post) = pre @ post"
    by (rule re_sub_no_match) (rule assms(14))
  show ?thesis
    by (simp only: migrate_endpoint_def Let_def a b c d)
qed

lemma re_search_match: "re_match p s = Some r \<Longrightarrow> re_search p s = Some (0, r)"
  by (cases s) simp_all

lemma re_search_Cons_None:
  "re_match p (x # xs) = None \<Longrightarrow>
   re_search p (x # xs) = map_option (\<lambda>(i, r). (Suc i, r)) (re_search p xs)"
  by simp

lemma re_search_skip_prefix:
  assumes "\<And>x xs. x \<in> set pre \<Longrightarrow> re_match p (x # xs) = None"
  shows "re_search p (pre @ s) = map_option (\<lambda>(i, r). (length pre + i, r)) (re_search p s)"
  using assms
proof (induction pre)
  case Nil
  show ?case by (simp add: option.map_ident case_prod_unfold)
next
  case (Cons x pre)
  then show ?case
    by (simp add: option.map_comp comp_def case_prod_unfold)
qed

lemma re_match_pattern3_skip: "x \<noteq> 105 \<Longrightarrow> re_match pattern3 (x # xs) = None"
  unfolding pattern3_def str_def by (simp add: re_match_skip)

lemmas example_defs = load_example_def full_load_block_def load_block_def cleanup_comment_def
  cleanup_call_def str_def

theorem rule_c_removes_full_block_witness:
  "space_run (str ''\<newline>    '') \<and> space_run (str ''\<newline>        '') \<and>
   space_run (str ''\<newline>\<newline>    '') \<and>
   str ''resp, HTTP_STATUS_SERVER_ERROR, \"Failed to load registry\"'' \<noteq> [] \<and>
   of_char CHR '')'' \<notin> set (str ''resp, HTTP_STATUS_SERVER_ERROR, \"Failed to load registry\"'') \<and>
   re_search pattern1 (str ''{\<newline>    '' @ load_example @ str ''\<newline>}'') = None \<and>
   re_search pattern2 (str ''{\<newline>    '' @ load_example @ str ''\<newline>}'') = None \<and>
   map_option fst (re_search pattern3 (str ''{\<newline>    '' @ load_example @ str ''\<newline>}'')) =
     Some (length (str ''{\<newline>    '')) \<and>
   re_search pattern3 (str ''\<newline>}'') = None \<and>
   re_search pattern4 (str ''{\<newline>    '' @ str ''\<newline>}'') = None \<and>
   migrate_endpoint (str ''{\<newline>    '' @ load_example @ str ''\<newline>}'') =
     str ''{\<newline>    '' @ str ''\<newline>}''"
proof -
  have s1: "space_run (str ''\<newline>    '')" by (simp add: is_space_def)
  have s2: "space_run (str ''\<newline>        '')" by (simp add: is_space_def)
  have s3: "space_run (str ''\<newline>\<newline>    '')" by (simp add: is_space_def)
  have a1: "str ''resp, HTTP_STATUS_SERVER_ERROR, \"Failed to load registry\"'' \<noteq> []" by simp
  have a2: "of_char CHR '')'' \<notin> set (str ''resp, HTTP_STATUS_SERVER_ERROR, \"Failed to load registry\"'')"
    by (simp add: str_def)
  have h1: "re_search pattern1 (str ''{\<newline>    '' @ load_example @ str ''\<newline>}'') = None"
    unfolding pattern1_def example_defs
    by (simp add: search_eval del: Cons_prefix_Cons re_search.simps(2))
  have h2: "re_search pattern2 (str ''{\<newline>    '' @ load_example @ str ''\<newline>}'') = None"
    unfolding pattern2_def example_defs
    by (simp add: search_eval del: Cons_prefix_Cons re_search.simps(2))
  have m: "re_search pattern3 (load_example @ str ''\<newline>}'') =
      Some (0, str ''\<newline>}'',
        [1 \<mapsto> str ''\<newline>    '', 2 \<mapsto> str ''\<newline>        '', 3 \<mapsto> str ''\<newline>        '',
         4 \<mapsto> str ''\<newline>        '', 5 \<mapsto> str ''\<newline>    '', 6 \<mapsto> str ''\<newline>\<newline>    '',
         7 \<mapsto> cleanup_comment, 8 \<mapsto> str ''\<newline>    '', 9 \<mapsto> cleanup_call])"
    unfolding load_example_def
    by (rule re_search_match) (rule re_match_full_load_block [OF s1 s2 s2 s2 s1 s3 s1 a1 a2])
  have h3: "map_option fst (re_search pattern3 (str ''{\<newline>    '' @ load_example @ str ''\<newline>}'')) =
      Some (length (str ''{\<newline>    ''))"
  proof -
    have "re_search pattern3 (str ''{\<newline>    '' @ load_example @ str ''\<newline>}'') =
        map_option (\<lambda>(i, r). (length (str ''{\<newline>    '') + i, r))
          (re_search pattern3 (load_example @ str ''\<newline>}''))"
      by (rule re_search_skip_prefix) (auto simp: str_def re_match_pattern3_skip)
    then show ?thesis by (simp add: m)
  qed
  have h4: "re_search pattern3 (str ''\<newline>}'') = None"
    unfolding pattern3_def str_def
    by (simp add: search_eval del: Cons_prefix_Cons re_search.simps(2))
  have h5: "re_search pattern4 (str ''{\<newline>    '' @ str ''\<newline>}'') = None"
    unfolding pattern4_def str_def
    by (simp add: search_eval del: Cons_prefix_Cons re_search.simps(2))
  from rule_c_removes_full_block [OF s1 s2 s2 s2 s1 s3 s1 a1 a2
      h1 [unfolded load_example_def] h2 [unfolded load_example_def]
      h3 [unfolded load_example_def] h4 h5]
    s1 s2 s3 a1 a2 h1 h2 h3 h4 h5
  show ?thesis by (simp add: load_example_def)
qed

subsection \<open>Rule C when the comment and the cleanup call are absent\<close>

lemma m_plus_one:
  "in_class cl c \<Longrightarrow> \<not> starts_in cl rest \<Longrightarrow> m_plus cl (c # rest) = [rest]"
  by (simp add: m_plus_none)

lemma m_plus_two:
  "r \<noteq> [] \<Longrightarrow> list_all (in_class cl) r \<Longrightarrow> in_class cl c \<Longrightarrow> \<not> starts_in cl rest \<Longrightarrow>
   \<exists>others. m_plus cl (r @ c # rest) = rest # (c # rest) # others"
proof (induction r)
  case Nil
  then show ?case by simp
next
  case (Cons x r)
  show ?case
  proof (cases "r = []")
    case True
    with Cons.prems show ?thesis by (simp add: m_plus_none)
  next
    case False
    with Cons obtain others where "m_plus cl (r @ c # rest) = rest # (c # rest) # others"
      by auto
    with Cons.prems show ?thesis by simp
  qed
qed

lemma space_not_slash: "is_space c \<Longrightarrow> c \<noteq> 47"
  by (auto simp: is_space_def)

lemma comment_needs_slash: "is_space c \<Longrightarrow> \<not> prefix cleanup_comment (c # s)"
  using space_not_slash [of c] by (simp add: cleanup_comment_def str_Cons)

lemma m_items_tail_bare:
  assumes "list_all is_space ws" "\<not> starts_in Space rest"
    and "\<not> prefix cleanup_comment rest" "\<not> prefix cleanup_call rest"
  shows "map_option fst
           (case m_items [Grp 6 [Plus Space], OptGrp 7 [Lit cleanup_comment], Grp 8 [Plus Space],
                          OptGrp 9 [Lit cleanup_call]] (ws @ rest, g)
            of [] \<Rightarrow> None | r # _ \<Rightarrow> Some r) =
         (if 2 \<le> length ws then Some rest else None)"
proof -
  let ?tl = "[OptGrp 7 [Lit cleanup_comment], Grp 8 [Plus Space], OptGrp 9 [Lit cleanup_call]]"
  have dead: "m_items ?tl (rest, h) = []" for h
    using assms(2,3) by (simp add: m_items_opt_skip m_group_def m_plus_none del: m_items.simps(2))
      (simp add: m_group_def m_plus_none)
  have live: "m_items ?tl (c # rest, h) = [(rest, h(8 \<mapsto> [c]))]" if "is_space c" for c h
    using that assms(2,4) comment_needs_slash [OF that, of rest]
    by (simp add: m_items_opt_skip del: m_items.simps(2))
      (simp add: m_group_def m_plus_none)
  consider "ws = []" | c where "ws = [c]" | r c where "ws = r @ [c]" "r \<noteq> []"
  proof (cases ws rule: rev_cases)
    case Nil
    then show ?thesis using that(1) by simp
  next
    case (snoc ys y)
    then show ?thesis using that(2,3) by (cases "ys = []") auto
  qed
  then show ?thesis
  proof cases
    case 1
    with assms(2) show ?thesis by (simp add: m_group_def m_plus_none)
  next
    case 2
    with assms(1,2) have "m_plus Space (ws @ rest) = [rest]"
      by (simp add: m_plus_none)
    with 2 show ?thesis
      by (simp add: m_items.simps(2) [of "Grp 6 [Plus Space]"] m_group_def dead
          del: m_items.simps(2))
  next
    case 3
    with assms(1) have r: "list_all (in_class Space) r" and c: "is_space c"
      by (simp_all add: in_class_Space)
    from m_plus_two [OF 3(2) r _ assms(2), of c] c obtain others where
      "m_plus Space (ws @ rest) = rest # (c # rest) # others"
      using 3(1) by auto
    moreover have "2 \<le> length ws"
      using 3 by (cases r) auto
    ultimately show ?thesis
      by (simp add: m_items.simps(2) [of "Grp 6 [Plus Space]"] m_group_def dead live [OF c]
          del: m_items.simps(2))
  qed
qed

lemma re_match_bare_load_block:
  assumes "space_run w1" "space_run w2" "space_run w3" "space_run w4" "space_run w5"
    and "args \<noteq> []" "of_char CHR '')'' \<notin> set args"
    and "list_all is_space ws" "\<not> starts_in Space rest"
    and "\<not> prefix cleanup_comment rest" "\<not> prefix cleanup_call rest"
  shows "map_option fst (re_match pattern3 (load_block w1 w2 w3 args w4 w5 @ ws @ rest)) =
         (if 2 \<le> length ws then Some rest else None)"
  unfolding re_match_def
  by (simp only: m_items_load_block [OF assms(1-7)] m_items_tail_bare [OF assms(8-11)])

text \<open>
  C10. The load block followed by the white space \<open>ws\<close> and then by text that starts neither
  with white space, nor with the comment, nor with the cleanup call. The pattern of Rule C
  matches at the block if and only if \<open>ws\<close> has two characters or more; the match then ends
  where \<open>rest\<close> starts, so Rule C deletes the block together with all of \<open>ws\<close>.
\<close>

theorem rule_c_without_optional_parts:
  assumes "space_run w1" "space_run w2" "space_run w3" "space_run w4" "space_run w5"
    and "args \<noteq> []" "of_char CHR '')'' \<notin> set args"
    and "list_all is_space ws" "\<not> starts_in Space rest"
    and "\<not> prefix cleanup_comment rest" "\<not> prefix cleanup_call rest"
  shows "map_option fst (re_match pattern3 (load_block w1 w2 w3 args w4 w5 @ ws @ rest)) =
           (if 2 \<le> length ws then Some rest else None) \<and>
         (if 2 \<le> length ws
          then re_sub pattern3 replacement3 (load_block w1 w2 w3 args w4 w5 @ ws @ rest) =
               re_sub pattern3 replacement3 rest
          else re_match pattern3 (load_block w1 w2 w3 args w4 w5 @ ws @ rest) = None)"
proof -
  note m = re_match_bare_load_block [OF assms]
  show ?thesis
  proof (cases "2 \<le> length ws")
    case True
    with m obtain g where
      g: "re_match pattern3 (load_block w1 w2 w3 args w4 w5 @ ws @ rest) = Some (rest, g)"
      by auto
    have "length rest < length (load_block w1 w2 w3 args w4 w5 @ ws @ rest)"
      by (simp add: load_block_def str_def)
    from re_sub_Some [OF g this] m True show ?thesis
      by (simp add: expand_replacement3)
  next
    case False
    with m show ?thesis by simp
  qed
qed

theorem rule_c_without_optional_parts_witness:
  "space_run (str ''\<newline>    '') \<and>
   str ''resp, 500, msg'' \<noteq> [] \<and> of_char CHR '')'' \<notin> set (str ''resp, 500, msg'') \<and>
   list_all is_space (str ''\<newline>\<newline>'') \<and> \<not> starts_in Space (str ''return 0;'') \<and>
   \<not> prefix cleanup_comment (str ''return 0;'') \<and> \<not> prefix cleanup_call (str ''return 0;'') \<and>
   map_option fst
     (re_match pattern3
        (load_block (str ''\<newline>    '') (str ''\<newline>    '') (str ''\<newline>    '') (str ''resp, 500, msg'')
           (str ''\<newline>    '') (str ''\<newline>    '') @ str ''\<newline>\<newline>'' @ str ''return 0;'')) =
     Some (str ''return 0;'') \<and>
   re_sub pattern3 replacement3
     (load_block (str ''\<newline>    '') (str ''\<newline>    '') (str ''\<newline>    '') (str ''resp, 500, msg'')
        (str ''\<newline>    '') (str ''\<newline>    '') @ str ''\<newline>\<newline>'' @ str ''return 0;'') =
     str ''return 0;''"
proof -
  have s: "space_run (str ''\<newline>    '')" by (simp add: is_space_def)
  have a1: "str ''resp, 500, msg'' \<noteq> []" by simp
  have a2: "of_char CHR '')'' \<notin> set (str ''resp, 500, msg'')" by (simp add: str_def)
  have w: "list_all is_space (str ''\<newline>\<newline>'')" by (simp add: str_def is_space_def)
  have r1: "\<not> starts_in Space (str ''return 0;'')" by (simp add: is_space_def)
  have r2: "\<not> prefix cleanup_comment (str ''return 0;'')"
    by (simp add: cleanup_comment_def str_def)
  have r3: "\<not> prefix cleanup_call (str ''return 0;'')"
    by (simp add: cleanup_call_def str_def)
  have l: "2 \<le> length (str ''\<newline>\<newline>'')" by (simp add: str_def)
  have e: "re_sub pattern3 replacement3 (str ''return 0;'') = str ''return 0;''"
    unfolding pattern3_def replacement3_def str_def
    by (simp add: sub_eval del: Cons_prefix_Cons)
  from rule_c_without_optional_parts [OF s s s s s a1 a2 w r1 r2 r3] s a1 a2 w r1 r2 r3 l e
  show ?thesis by simp
qed

lemma rule_c_single_space_example:
  "re_match pattern3
     (load_block (str ''\<newline>    '') (str ''\<newline>    '') (str ''\<newline>    '') (str ''resp, 500, msg'')
        (str ''\<newline>    '') (str ''\<newline>    '') @ str ''\<newline>'' @ str ''return 0;'') = None"
proof -
  have s: "space_run (str ''\<newline>    '')" by (simp add: is_space_def)
  have a1: "str ''resp, 500, msg'' \<noteq> []" by simp
  have a2: "of_char CHR '')'' \<notin> set (str ''resp, 500, msg'')" by (simp add: str_def)
  have w: "list_all is_space (str ''\<newline>'')" by (simp add: str_def is_space_def)
  have r1: "\<not> starts_in Space (str ''return 0;'')" by (simp add: is_space_def)
  have r2: "\<not> prefix cleanup_comment (str ''return 0;'')"
    by (simp add: cleanup_comment_def str_def)
  have r3: "\<not> prefix cleanup_call (str ''return 0;'')"
    by (simp add: cleanup_call_def str_def)
  have l: "\<not> 2 \<le> length (str ''\<newline>'')" by (simp add: str_def)
  from re_match_bare_load_block [OF s s s s s a1 a2 w r1 r2 r3] l
  show ?thesis by simp
qed

subsection \<open>The variable name\<close>




















subsection \<open>Every match holds the first literal of its pattern\<close>

















lemma decl_of_registry: \<open>decl_of (str ''registry'') @ arg @ str ''");'' = registry_decl arg\<close>
  by (simp add: decl_of_def registry_decl_def str_def)

lemma destroy_call_of_registry:
  "re_match pattern4 (destroy_call_of (str ''registry'') @ rest) = Some (rest, Map.empty)"
proof -
  have "destroy_call_of (str ''registry'') = str ''workflow_registry_destroy(registry);''"
    by (simp add: destroy_call_of_def str_def)
  then show ?thesis
    unfolding re_match_def pattern4_def by (simp only: m_items_lit m_items.simps(1) list.case)
qed



section \<open>The entry point\<close>

text \<open>
  C7. Called with no argument or with two or more, the script prints the usage line and
  exits with status 1; no file is opened and the world is otherwise unchanged.  Called with
  one path of a file that can be read and written, it opens the file to read and then to
  write, stores the migrated text under the same path, prints \<^verbatim>\<open>Migrated <path>\<close> and exits
  with status 0.
\<close>

theorem main_cli:
  "(length args \<noteq> 1 \<longrightarrow>
      main (prog # args) w = (Exited 1, w\<lparr>stdout := stdout w @ str ''Usage: '' @ prog @ str '' <file>'' @ [10]\<rparr>)) \<and>
   (files w path = Some f \<and> readable f \<and> writable f \<longrightarrow>
      main [prog, path] w =
        (Exited 0,
         w\<lparr>files := (files w)(path \<mapsto> f\<lparr>data := migrate_endpoint (data f)\<rparr>),
           stdout := stdout w @ str ''Migrated '' @ path @ [10],
           opened := opened w @ [(path, Reading), (path, Writing)]\<rparr>))"
  by (auto simp: main_def print_def open_read_def open_write_def Let_def)

theorem main_cli_witness:
  "length ([] :: pystr list) \<noteq> 1 \<and>
   main [str ''migrate_registry.py'']
     \<lparr>files = [str ''a.c'' \<mapsto> \<lparr>data = str ''int x;'', readable = True, writable = True\<rparr>],
      stdout = [], opened = []\<rparr> =
     (Exited 1,
      \<lparr>files = [str ''a.c'' \<mapsto> \<lparr>data = str ''int x;'', readable = True, writable = True\<rparr>],
       stdout = str ''Usage: migrate_registry.py <file>\<newline>'', opened = []\<rparr>) \<and>
   main [str ''migrate_registry.py'', str ''a.c'']
     \<lparr>files = [str ''a.c'' \<mapsto> \<lparr>data = str ''int x;'', readable = True, writable = True\<rparr>],
      stdout = [], opened = []\<rparr> =
     (Exited 0,
      \<lparr>files = [str ''a.c'' \<mapsto> \<lparr>data = str ''int x;'', readable = True, writable = True\<rparr>],
       stdout = str ''Migrated a.c\<newline>'',
       opened = [(str ''a.c'', Reading), (str ''a.c'', Writing)]\<rparr>)"
proof -
  have h1: "re_search pattern1 (str ''int x;'') = None"
    unfolding pattern1_def str_def by (simp add: search_eval del: Cons_prefix_Cons re_search.simps(2))
  have h2: "re_search pattern2 (str ''int x;'') = None"
    unfolding pattern2_def str_def by (simp add: search_eval del: Cons_prefix_Cons re_search.simps(2))
  have h3: "re_search pattern3 (str ''int x;'') = None"
    unfolding pattern3_def str_def by (simp add: search_eval del: Cons_prefix_Cons re_search.simps(2))
  have h4: "re_search pattern4 (str ''int x;'') = None"
    unfolding pattern4_def str_def by (simp add: search_eval del: Cons_prefix_Cons re_search.simps(2))
  have m: "migrate_endpoint (str ''int x;'') = str ''int x;''"
    by (rule migrate_endpoint_no_match [OF h1 h2 h3 h4])
  let ?f = "\<lparr>data = str ''int x;'', readable = True, writable = True\<rparr>"
  let ?w = "\<lparr>files = [str ''a.c'' \<mapsto> ?f], stdout = [], opened = []\<rparr>"
  have f: "files ?w (str ''a.c'') = Some ?f \<and> readable ?f \<and> writable ?f"
    by simp
  from main_cli [of "[]" "str ''migrate_registry.py''" ?w "str ''a.c''" ?f] f m
  show ?thesis by (simp add: str_def)
qed

end
